theory Spec2Isabelle
  imports Complex_Main "HOL-Library.Multiset"
begin

section \<open>Errors and outcomes\<close>

text \<open>
  The exceptions that the code of \<^verbatim>\<open>OCluDAL.py\<close> and the NumPy operations it calls can
  raise.  \<open>CollaboratorError\<close> stands for any exception raised inside an external
  collaborator (classifier, clustering, persistence).
\<close>

datatype error =
    IndexError
  | ValueError
  | AssertionError
  | UnboundLocalError
  | CollaboratorError

text \<open>
  A method of the object either raises, leaving the object in the state reached at the
  moment of the raise, or returns a value together with the updated object.
\<close>

datatype ('a, 's) outcome =
    Raised error 's
  | Returned 'a 's

section \<open>The NumPy operations used by the pool manager\<close>

text \<open>
  An integer index into an axis of length \<open>len\<close>: NumPy accepts \<open>-len \<le> i < len\<close>,
  negative values counting from the end, and raises \<^verbatim>\<open>IndexError\<close> otherwise.
\<close>

definition normalize_index :: "nat \<Rightarrow> int \<Rightarrow> error + nat" where
  "normalize_index len i =
     (if 0 \<le> i \<and> i < int len then Inr (nat i)
      else if - int len \<le> i \<and> i < 0 then Inr (nat (i + int len))
      else Inl IndexError)"

fun normalize_indices :: "nat \<Rightarrow> int list \<Rightarrow> error + nat list" where
  "normalize_indices len [] = Inr []"
| "normalize_indices len (i # rest) =
     (case normalize_index len i of
        Inl e \<Rightarrow> Inl e
      | Inr j \<Rightarrow>
          (case normalize_indices len rest of
             Inl e \<Rightarrow> Inl e
           | Inr js \<Rightarrow> Inr (j # js)))"

text \<open>
  \<^verbatim>\<open>arr[indices]\<close> with a sequence of integers (integer-array indexing along axis 0):
  one output row per index, in the order given, repeated when an index is repeated.
\<close>

definition fancy_index :: "'a list \<Rightarrow> int list \<Rightarrow> error + 'a list" where
  "fancy_index arr indices =
     (case normalize_indices (length arr) indices of
        Inl e \<Rightarrow> Inl e
      | Inr js \<Rightarrow> Inr (map (\<lambda>j. arr ! j) js))"

text \<open>
  \<^verbatim>\<open>np.delete(arr, indices, axis=0)\<close>: every index is checked against the axis, a mask
  \<^verbatim>\<open>keep\<close> is set to false at each (normalised) index, and the rows with
  \<^verbatim>\<open>keep\<close> true are returned in their order.  A repeated index removes its row once.
\<close>

definition np_delete :: "'a list \<Rightarrow> int list \<Rightarrow> error + 'a list" where
  "np_delete arr indices =
     (case normalize_indices (length arr) indices of
        Inl e \<Rightarrow> Inl e
      | Inr js \<Rightarrow>
          Inr (map (\<lambda>k. arr ! k) (filter (\<lambda>k. k \<notin> set js) [0..<length arr])))"

section \<open>The object state\<close>

text \<open>
  One row of the results table \<^verbatim>\<open>self.data\<close>, with the columns of the data frame built
  in \<^verbatim>\<open>run_classification\<close>.
\<close>

record iteration_record =
  Accuracy :: real
  F1_Score :: real
  Train_Accuracy :: real
  Number_of_Annotations :: nat
  rec_damping :: real
  rec_preference :: real
  Train_type :: string
  Classes :: nat

text \<open>
  The fields of an \<^verbatim>\<open>OCluDAL\<close> object that the active-learning loop reads and writes
  after \<^verbatim>\<open>preprocessing\<close>.  A feature row is a value of type \<open>'x\<close>, a label a value of
  type \<open>'y\<close>, the classifier object a value of type \<open>'c\<close>.  \<open>rng\<close> is the state of
  NumPy's global random generator.
\<close>

record ('x, 'y, 'c) ocludal =
  labelled_X_new :: "'x list"
  labelled_y_new :: "'y list"
  unlabelled_X_new :: "'x list"
  unlabelled_y_new :: "'y list"
  unique_labels :: "'y list"
  clf :: 'c
  data :: "iteration_record list"
  damping :: real
  preference :: real
  training_type :: string
  rng :: nat

section \<open>Pool manager: \<^verbatim>\<open>oracle_annotations\<close>\<close>

text \<open>
  \<^verbatim>\<open>
  def oracle_annotations(self, indices):
      representative_X = self.unlabelled_X_new[indices]
      representative_y = self.unlabelled_y_new[indices]
      self.labelled_X_new = np.vstack([self.labelled_X_new, representative_X])
      self.labelled_y_new = np.hstack([self.labelled_y_new, representative_y])
      assert len(self.labelled_X_new) == len(self.labelled_y_new)
      self.unlabelled_X_new = np.delete(self.unlabelled_X_new, indices, axis=0)
      self.unlabelled_y_new = np.delete(self.unlabelled_y_new, indices, axis=0)
  \<close>
  Feature rows are values of one type, so the column counts that \<^verbatim>\<open>vstack\<close> compares
  agree by construction.
\<close>

definition oracle_annotations ::
  "int list \<Rightarrow> ('x, 'y, 'c) ocludal \<Rightarrow> (unit, ('x, 'y, 'c) ocludal) outcome" where
  "oracle_annotations indices self =
     (case fancy_index (unlabelled_X_new self) indices of
        Inl e \<Rightarrow> Raised e self
      | Inr representative_X \<Rightarrow>
     (case fancy_index (unlabelled_y_new self) indices of
        Inl e \<Rightarrow> Raised e self
      | Inr representative_y \<Rightarrow>
     (let self1 = self\<lparr>labelled_X_new := labelled_X_new self @ representative_X\<rparr>;
          self2 = self1\<lparr>labelled_y_new := labelled_y_new self1 @ representative_y\<rparr>
      in if length (labelled_X_new self2) \<noteq> length (labelled_y_new self2)
         then Raised AssertionError self2
         else
     (case np_delete (unlabelled_X_new self2) indices of
        Inl e \<Rightarrow> Raised e self2
      | Inr remaining_X \<Rightarrow>
     (let self3 = self2\<lparr>unlabelled_X_new := remaining_X\<rparr>
      in
     (case np_delete (unlabelled_y_new self3) indices of
        Inl e \<Rightarrow> Raised e self3
      | Inr remaining_y \<Rightarrow>
          Returned () (self3\<lparr>unlabelled_y_new := remaining_y\<rparr>)))))))"

text \<open>
  The parallel arrays of a pool are in lockstep: row \<open>i\<close> of a feature matrix belongs to
  entry \<open>i\<close> of the label vector.  \<^verbatim>\<open>preprocessing\<close> establishes this.
\<close>

definition lockstep :: "('x, 'y, 'c) ocludal \<Rightarrow> bool" where
  "lockstep self \<longleftrightarrow>
     length (labelled_X_new self) = length (labelled_y_new self) \<and>
     length (unlabelled_X_new self) = length (unlabelled_y_new self)"

text \<open>A position inside an array of length \<open>len\<close>.\<close>

definition in_range :: "nat \<Rightarrow> int \<Rightarrow> bool" where
  "in_range len i \<longleftrightarrow> 0 \<le> i \<and> i < int len"

section \<open>Sampling strategies\<close>

text \<open>
  A two-dimensional array of class probabilities: \<open>mrows\<close> are its rows (one per sample)
  and \<open>n_cols\<close> is the second component of its \<^verbatim>\<open>shape\<close>.  Probabilities are modelled
  as real numbers.
\<close>

record prob_matrix =
  n_cols :: nat
  mrows :: "real list list"

definition well_shaped :: "prob_matrix \<Rightarrow> bool" where
  "well_shaped P \<longleftrightarrow> list_all (\<lambda>row. length row = n_cols P) (mrows P)"

text \<open>\<^verbatim>\<open>np.argmax\<close> of a non-empty row: the first position holding the maximum.\<close>

fun argmax :: "real list \<Rightarrow> nat" where
  "argmax [] = 0"
| "argmax [x] = 0"
| "argmax (x # xs) = (let j = argmax xs in if x < xs ! j then Suc j else 0)"

text \<open>
  \<^verbatim>\<open>np.argsort\<close> of a vector: the positions in ascending order of their values.  Equal
  values are kept in their order of position.
\<close>

definition argsort :: "real list \<Rightarrow> nat list" where
  "argsort xs = sort_key (\<lambda>i. xs ! i) [0..<length xs]"

text \<open>The Python slices \<^verbatim>\<open>xs[:n]\<close> and \<^verbatim>\<open>xs[-n:]\<close> for an integer \<open>n\<close>.\<close>

definition slice_to :: "'a list \<Rightarrow> int \<Rightarrow> 'a list" where
  "slice_to xs n =
     (let len = int (length xs);
          stop = (if n < 0 then max (n + len) 0 else min n len)
      in take (nat stop) xs)"

definition slice_from_neg :: "'a list \<Rightarrow> int \<Rightarrow> 'a list" where
  "slice_from_neg xs n =
     (let len = int (length xs);
          start = (if - n < 0 then max (- n + len) 0 else min (- n) len)
      in drop (nat start) xs)"

text \<open>
  \<^verbatim>\<open>
  def BvSB_Sampling(self, probalities, n):
      n_samples, n_classes = probalities.shape
      max_indices = np.argmax(probalities, axis=1)
      second_max_indices = np.argsort(probalities, axis=1)[:, -2]
      max_prob = probalities[np.arange(n_samples), max_indices]
      second_max_prob = probalities[np.arange(n_samples), second_max_indices]
      diff = max_prob - second_max_prob
      indices = np.argsort(diff)[:n]
      return indices
  \<close>
  \<^verbatim>\<open>np.argmax\<close> along an axis of length 0 raises \<^verbatim>\<open>ValueError\<close>; the column index
  \<^verbatim>\<open>-2\<close> raises \<^verbatim>\<open>IndexError\<close> when there are fewer than two columns.
\<close>

definition BvSB_Sampling ::
  "('x, 'y, 'c) ocludal \<Rightarrow> prob_matrix \<Rightarrow> int \<Rightarrow> error + nat list" where
  "BvSB_Sampling self probalities n =
     (let n_classes = n_cols probalities
      in if n_classes = 0 then Inl ValueError
         else
     (let max_indices = map argmax (mrows probalities)
      in
     (case normalize_index n_classes (- 2) of
        Inl e \<Rightarrow> Inl e
      | Inr k \<Rightarrow>
     (let second_max_indices = map (\<lambda>row. argsort row ! k) (mrows probalities);
          max_prob = map2 (\<lambda>row j. row ! j) (mrows probalities) max_indices;
          second_max_prob = map2 (\<lambda>row j. row ! j) (mrows probalities) second_max_indices;
          diff = map2 (\<lambda>a b. a - b) max_prob second_max_prob;
          indices = slice_to (argsort diff) n
      in Inr indices))))"

text \<open>
  \<^verbatim>\<open>
  def Entropy_Sampling(self, probalities, n):
      """
      Function selects the n-highest entropy probabilities and returns the indices of them
      """
      n_samples, n_classes = probalities.shape
      entropy = -np.sum(probalities * np.log(probalities), axis=1)
      entropy = []
      for i in range(n_samples):
          k_ = []
          for k in range(n_classes):
              k_.append(probalities[i][k] * np.log(probalities[i][k]))
          entropy.append(-sum(k_))
      assert len(entropy) == n_samples
      indices = np.argsort(entropy)[-n:]
      return indices
  \<close>
  The first assignment to \<^verbatim>\<open>entropy\<close> is overwritten and raises nothing.
\<close>

definition row_entropy :: "nat \<Rightarrow> real list \<Rightarrow> real" where
  "row_entropy n_classes row =
     - sum_list (map (\<lambda>k. row ! k * ln (row ! k)) [0..<n_classes])"

definition Entropy_Sampling ::
  "('x, 'y, 'c) ocludal \<Rightarrow> prob_matrix \<Rightarrow> int \<Rightarrow> error + nat list" where
  "Entropy_Sampling self probalities n =
     (let n_samples = length (mrows probalities);
          n_classes = n_cols probalities;
          entropy = map (row_entropy n_classes) (mrows probalities)
      in if length entropy \<noteq> n_samples then Inl AssertionError
         else Inr (slice_from_neg (argsort entropy) n))"

section \<open>External collaborators\<close>

text \<open>
  The library objects the loop calls, as functions.  \<open>fit\<close>, \<open>predict\<close>,
  \<open>predict_classes\<close> and \<open>predict_proba\<close> are the classifier's methods;
  \<open>f1_score\<close> is called with \<^verbatim>\<open>average='weighted'\<close>; \<open>to_csv\<close> writes the results
  table and yields the exception it raised, if any; \<open>OneClassSVM_fit_predict\<close> fits a
  one-class SVM on its first argument and predicts (\<open>1\<close> or \<open>-1\<close>) on its second;
  \<open>AffinityPropagation_fit\<close> takes damping, preference and the points and yields
  \<^verbatim>\<open>cluster_centers_\<close>; \<open>permutation\<close> takes the generator state and a population
  size and yields a permutation of the population with the next generator state.
\<close>

record ('x, 'y, 'c) collaborators =
  fit :: "'c \<Rightarrow> 'x list \<Rightarrow> 'y list \<Rightarrow> error + 'c"
  predict :: "'c \<Rightarrow> 'x list \<Rightarrow> error + 'y list"
  predict_classes :: "'c \<Rightarrow> 'x list \<Rightarrow> error + 'y list"
  predict_proba :: "'c \<Rightarrow> 'x list \<Rightarrow> error + prob_matrix"
  f1_score :: "'y list \<Rightarrow> 'y list \<Rightarrow> real"
  accuracy_score :: "'y list \<Rightarrow> 'y list \<Rightarrow> real"
  to_csv :: "iteration_record list \<Rightarrow> error option"
  OneClassSVM_fit_predict :: "'x list \<Rightarrow> 'x list \<Rightarrow> error + int list"
  AffinityPropagation_fit :: "real \<Rightarrow> real \<Rightarrow> 'x list \<Rightarrow> error + 'x list"
  permutation :: "nat \<Rightarrow> nat \<Rightarrow> nat list \<times> nat"

text \<open>
  \<^verbatim>\<open>
  def Random_sampling(self, n):
      indices = np.random.choice(len(self.unlabelled_X_new), n, replace=False)
      return indices
  \<close>
  \<^verbatim>\<open>np.random.choice\<close> without replacement raises \<^verbatim>\<open>ValueError\<close> for a negative size
  and for a size above the population, and otherwise returns the first \<open>n\<close> entries of a
  random permutation of the population.
\<close>

definition Random_sampling ::
  "('x, 'y, 'c) collaborators \<Rightarrow> int \<Rightarrow> ('x, 'y, 'c) ocludal
     \<Rightarrow> (nat list, ('x, 'y, 'c) ocludal) outcome" where
  "Random_sampling env n self =
     (let pop_size = length (unlabelled_X_new self)
      in if n < 0 \<or> int pop_size < n then Raised ValueError self
         else
     (case permutation env (rng self) pop_size of
        (perm, rng') \<Rightarrow> Returned (take (nat n) perm) (self\<lparr>rng := rng'\<rparr>)))"

section \<open>Metrics reporter and training\<close>

text \<open>
  \<^verbatim>\<open>
  def run_classification(self, clf):
      X_test = self.unlabelled_X_new
      X_train = self.labelled_X_new
      try:
          y_test_pred = clf.predict(X_test)
          y_train_pred = clf.predict(X_train)
      except:
          y_test_pred = clf.predict_classes(X_test)
          y_train_pred = clf.predict_classes(X_train)
      y_test_true = self.unlabelled_y_new
      y_train_true = self.labelled_y_new
      f1 = f1_score(y_test_true, y_test_pred, average='weighted')
      test_accuracy = accuracy_score(y_test_true, y_test_pred)
      train_accuracy = accuracy_score(y_train_true, y_train_pred)
      classes = len(np.unique(self.labelled_y_new))
      df = pd.DataFrame({...}, index=[0])
      self.data = pd.concat([self.data, df], ignore_index=True)
      self.data.to_csv(f'Results\\{self.output_path}', index=False)
      return f1, test_accuracy, len(self.labelled_X_new)
  \<close>
\<close>

definition predictions ::
  "('c \<Rightarrow> 'x list \<Rightarrow> error + 'y list) \<Rightarrow> 'c \<Rightarrow> 'x list \<Rightarrow> 'x list
     \<Rightarrow> error + ('y list \<times> 'y list)" where
  "predictions method c X_test X_train =
     (case method c X_test of
        Inl e \<Rightarrow> Inl e
      | Inr y_test_pred \<Rightarrow>
          (case method c X_train of
             Inl e \<Rightarrow> Inl e
           | Inr y_train_pred \<Rightarrow> Inr (y_test_pred, y_train_pred)))"

definition run_classification ::
  "('x, 'y, 'c) collaborators \<Rightarrow> 'c \<Rightarrow> ('x, 'y, 'c) ocludal
     \<Rightarrow> (real \<times> real \<times> nat, ('x, 'y, 'c) ocludal) outcome" where
  "run_classification env c self =
     (let X_test = unlabelled_X_new self;
          X_train = labelled_X_new self
      in
     (case (case predictions (predict env) c X_test X_train of
              Inl e \<Rightarrow> predictions (predict_classes env) c X_test X_train
            | Inr p \<Rightarrow> Inr p) of
        Inl e \<Rightarrow> Raised e self
      | Inr (y_test_pred, y_train_pred) \<Rightarrow>
     (let y_test_true = unlabelled_y_new self;
          y_train_true = labelled_y_new self;
          f1 = f1_score env y_test_true y_test_pred;
          test_accuracy = accuracy_score env y_test_true y_test_pred;
          train_accuracy = accuracy_score env y_train_true y_train_pred;
          classes = length (remdups (labelled_y_new self));
          df = \<lparr>Accuracy = test_accuracy, F1_Score = f1, Train_Accuracy = train_accuracy,
                Number_of_Annotations = length (labelled_X_new self),
                rec_damping = damping self, rec_preference = preference self,
                Train_type = training_type self, Classes = classes\<rparr>;
          self1 = self\<lparr>data := data self @ [df]\<rparr>
      in
     (case to_csv env (data self1) of
        Some e \<Rightarrow> Raised e self1
      | None \<Rightarrow> Returned (f1, test_accuracy, length (labelled_X_new self1)) self1))))"

text \<open>
  \<^verbatim>\<open>
  def train_model(self):
      X = self.labelled_X_new.copy()
      y = self.labelled_y_new.copy()
      clf = self.clf
      clf.fit(X, y)
      self.run_classification(clf)
      return clf
  \<close>
  \<^verbatim>\<open>fit\<close> trains the object held in \<^verbatim>\<open>self.clf\<close> in place.
\<close>

definition train_model ::
  "('x, 'y, 'c) collaborators \<Rightarrow> ('x, 'y, 'c) ocludal
     \<Rightarrow> ('c, ('x, 'y, 'c) ocludal) outcome" where
  "train_model env self =
     (let X = labelled_X_new self;
          y = labelled_y_new self
      in
     (case fit env (clf self) X y of
        Inl e \<Rightarrow> Raised e self
      | Inr c \<Rightarrow>
     (let self1 = self\<lparr>clf := c\<rparr>
      in
     (case run_classification env c self1 of
        Raised e self2 \<Rightarrow> Raised e self2
      | Returned r self2 \<Rightarrow> Returned c self2))))"

section \<open>Phase 1: novelty detection and clustering\<close>

text \<open>\<^verbatim>\<open>arr[flags]\<close> with a boolean vector: the rows where the vector is true, in order.\<close>

definition boolean_index :: "'a list \<Rightarrow> bool list \<Rightarrow> error + 'a list" where
  "boolean_index arr flags =
     (if length flags \<noteq> length arr then Inl IndexError
      else Inr (map fst (filter snd (zip arr flags))))"

text \<open>
  The body of the loop over \<^verbatim>\<open>self.unique_labels\<close>:
  \<^verbatim>\<open>
  masks = []
  for label in self.unique_labels:
      svm = OneClassSVM().fit(self.labelled_X_new[self.labelled_y_new == label])
      novel_mask_i = svm.predict(self.unlabelled_X_new) == -1
      masks.append(novel_mask_i)
  \<close>
\<close>

fun detector_masks ::
  "('x, 'y, 'c) collaborators \<Rightarrow> ('x, 'y, 'c) ocludal \<Rightarrow> 'y list \<Rightarrow> error + bool list list" where
  "detector_masks env self [] = Inr []"
| "detector_masks env self (label # rest) =
     (case boolean_index (labelled_X_new self) (map (\<lambda>y. y = label) (labelled_y_new self)) of
        Inl e \<Rightarrow> Inl e
      | Inr train \<Rightarrow>
     (case OneClassSVM_fit_predict env train (unlabelled_X_new self) of
        Inl e \<Rightarrow> Inl e
      | Inr pred \<Rightarrow>
     (let novel_mask_i = map (\<lambda>v. v = - 1) pred
      in
     (case detector_masks env self rest of
        Inl e \<Rightarrow> Inl e
      | Inr masks \<Rightarrow> Inr (novel_mask_i # masks)))))"

text \<open>
  \<^verbatim>\<open>np.all(masks, axis=0)\<close> for a non-empty list of masks: the masks are stacked into a
  two-dimensional array (\<^verbatim>\<open>ValueError\<close> when their lengths differ) and combined
  column by column with logical and.
\<close>

fun np_all_axis0 :: "bool list list \<Rightarrow> error + bool list" where
  "np_all_axis0 [] = Inl ValueError"
| "np_all_axis0 [m] = Inr m"
| "np_all_axis0 (m # ms) =
     (case np_all_axis0 ms of
        Inl e \<Rightarrow> Inl e
      | Inr acc \<Rightarrow>
          if length acc \<noteq> length m then Inl ValueError
          else Inr (map2 (\<lambda>a b. a \<and> b) m acc))"

text \<open>
  The novelty scan of one iteration of \<^verbatim>\<open>step1\<close>:
  \<^verbatim>\<open>
  novel_mask = np.all(masks, axis=0)
  novel_X = self.unlabelled_X_new[novel_mask]
  \<close>
  With no label at all \<^verbatim>\<open>np.all([], axis=0)\<close> is the scalar \<^verbatim>\<open>True\<close>, indexing with
  it yields one three-dimensional block rather than rows, and the clustering that follows
  rejects it with \<^verbatim>\<open>ValueError\<close>; \<open>np_all_axis0 []\<close> stands for that outcome.
  \<open>novel_positions\<close> are the positions of the rows of \<open>novel_X\<close> in the unlabelled array.
\<close>

definition novel_mask_of ::
  "('x, 'y, 'c) collaborators \<Rightarrow> ('x, 'y, 'c) ocludal \<Rightarrow> error + bool list" where
  "novel_mask_of env self =
     (case detector_masks env self (unique_labels self) of
        Inl e \<Rightarrow> Inl e
      | Inr masks \<Rightarrow> np_all_axis0 masks)"

definition novelty_scan ::
  "('x, 'y, 'c) collaborators \<Rightarrow> ('x, 'y, 'c) ocludal \<Rightarrow> error + 'x list" where
  "novelty_scan env self =
     (case novel_mask_of env self of
        Inl e \<Rightarrow> Inl e
      | Inr novel_mask \<Rightarrow> boolean_index (unlabelled_X_new self) novel_mask)"

text \<open>
  \<^verbatim>\<open>
  representative_indices = []
  for sample in representative_X:
      representative_indices.append(
          np.where((self.unlabelled_X_new == sample).all(axis=1))[0][0])
  \<close>
  The first row equal to the sample; \<^verbatim>\<open>IndexError\<close> when no row is.
\<close>

definition where_first :: "'x list \<Rightarrow> 'x \<Rightarrow> error + nat" where
  "where_first arr sample =
     (case filter (\<lambda>k. arr ! k = sample) [0..<length arr] of
        [] \<Rightarrow> Inl IndexError
      | k # _ \<Rightarrow> Inr k)"

fun representative_indices :: "'x list \<Rightarrow> 'x list \<Rightarrow> error + nat list" where
  "representative_indices arr [] = Inr []"
| "representative_indices arr (sample # rest) =
     (case where_first arr sample of
        Inl e \<Rightarrow> Inl e
      | Inr k \<Rightarrow>
          (case representative_indices arr rest of
             Inl e \<Rightarrow> Inl e
           | Inr ks \<Rightarrow> Inr (k # ks)))"

text \<open>
  \<^verbatim>\<open>
  def step1(self, max_iter=1, max_samples=800):
      self.train_model()
      self.training_type = 'AP'
      iter_count = 0
      while iter_count < max_iter and len(self.labelled_X_new) < max_samples:
          iter_count += 1
          ... novelty scan ...
          if len(novel_X) > 0:
              ap = AffinityPropagation(damping=self.damping,
                                       preference=self.preference).fit(novel_X)
              representative_X = ap.cluster_centers_
          else:
              break
          ... representative_indices ...
          self.oracle_annotations(representative_indices)
          self.train_model()
  \<close>
\<close>

function step1_loop ::
  "('x, 'y, 'c) collaborators \<Rightarrow> int \<Rightarrow> int \<Rightarrow> int \<Rightarrow> ('x, 'y, 'c) ocludal
     \<Rightarrow> (unit, ('x, 'y, 'c) ocludal) outcome" where
  "step1_loop env max_iter max_samples iter_count self =
     (if iter_count < max_iter \<and> int (length (labelled_X_new self)) < max_samples then
        (case novelty_scan env self of
           Inl e \<Rightarrow> Raised e self
         | Inr novel_X \<Rightarrow>
             if length novel_X > 0 then
               (case AffinityPropagation_fit env (damping self) (preference self) novel_X of
                  Inl e \<Rightarrow> Raised e self
                | Inr representative_X \<Rightarrow>
               (case representative_indices (unlabelled_X_new self) representative_X of
                  Inl e \<Rightarrow> Raised e self
                | Inr indices \<Rightarrow>
               (case oracle_annotations (map int indices) self of
                  Raised e self1 \<Rightarrow> Raised e self1
                | Returned u self1 \<Rightarrow>
               (case train_model env self1 of
                  Raised e self2 \<Rightarrow> Raised e self2
                | Returned c self2 \<Rightarrow>
                    step1_loop env max_iter max_samples (iter_count + 1) self2))))
             else Returned () self)
      else Returned () self)"
  by pat_completeness auto
termination
  by (relation "measure (\<lambda>(env, max_iter, max_samples, iter_count, self). nat (max_iter - iter_count))")
     auto

definition step1 ::
  "('x, 'y, 'c) collaborators \<Rightarrow> int \<Rightarrow> int \<Rightarrow> ('x, 'y, 'c) ocludal
     \<Rightarrow> (unit, ('x, 'y, 'c) ocludal) outcome" where
  "step1 env max_iter max_samples self =
     (case train_model env self of
        Raised e self1 \<Rightarrow> Raised e self1
      | Returned c self1 \<Rightarrow>
          step1_loop env max_iter max_samples 0 (self1\<lparr>training_type := ''AP''\<rparr>))"

section \<open>Phase 2: uncertainty sampling\<close>

text \<open>
  \<^verbatim>\<open>
  def step2(self, max_iter=800, n=5, model_type='SVM', max_samples=1000,
            sampling_type='BvSB'):
      iter = 0
      num_samples = len(self.labelled_X_new)
      self.training_type = 'BvSB'
      while iter <= max_iter and num_samples < max_samples:
          clf = self.train_model()
          self.run_classification(clf)
          probalities = clf.predict_proba(self.unlabelled_X_new)
          if sampling_type == 'BvSB':
              indices = self.BvSB_Sampling(probalities, n)
          elif sampling_type == 'Random':
              indices = self.Random_sampling(n)
          elif sampling_type == 'Entropy':
              indices = self.Entropy_Sampling(probalities, n)
          self.oracle_annotations(indices)
          num_samples = len(self.labelled_X_new)
          iter += 1
      clf = self.train_model()
      self.run_classification(clf)
      return clf
  \<close>
  With any other \<^verbatim>\<open>sampling_type\<close> the name \<^verbatim>\<open>indices\<close> is unbound at its use.
\<close>

definition select_indices ::
  "('x, 'y, 'c) collaborators \<Rightarrow> string \<Rightarrow> prob_matrix \<Rightarrow> int \<Rightarrow> ('x, 'y, 'c) ocludal
     \<Rightarrow> (nat list, ('x, 'y, 'c) ocludal) outcome" where
  "select_indices env sampling_type probalities n self =
     (if sampling_type = ''BvSB'' then
        (case BvSB_Sampling self probalities n of
           Inl e \<Rightarrow> Raised e self
         | Inr indices \<Rightarrow> Returned indices self)
      else if sampling_type = ''Random'' then Random_sampling env n self
      else if sampling_type = ''Entropy'' then
        (case Entropy_Sampling self probalities n of
           Inl e \<Rightarrow> Raised e self
         | Inr indices \<Rightarrow> Returned indices self)
      else Raised UnboundLocalError self)"

text \<open>One pass through the body of the loop of \<^verbatim>\<open>step2\<close>.\<close>

definition step2_body ::
  "('x, 'y, 'c) collaborators \<Rightarrow> int \<Rightarrow> string \<Rightarrow> ('x, 'y, 'c) ocludal
     \<Rightarrow> (unit, ('x, 'y, 'c) ocludal) outcome" where
  "step2_body env n sampling_type self =
     (case train_model env self of
        Raised e self1 \<Rightarrow> Raised e self1
      | Returned c self1 \<Rightarrow>
     (case run_classification env c self1 of
        Raised e self2 \<Rightarrow> Raised e self2
      | Returned r self2 \<Rightarrow>
     (case predict_proba env c (unlabelled_X_new self2) of
        Inl e \<Rightarrow> Raised e self2
      | Inr probalities \<Rightarrow>
     (case select_indices env sampling_type probalities n self2 of
        Raised e self3 \<Rightarrow> Raised e self3
      | Returned indices self3 \<Rightarrow> oracle_annotations (map int indices) self3))))"

function step2_loop ::
  "('x, 'y, 'c) collaborators \<Rightarrow> int \<Rightarrow> int \<Rightarrow> int \<Rightarrow> string \<Rightarrow> int \<Rightarrow> int
     \<Rightarrow> ('x, 'y, 'c) ocludal \<Rightarrow> (unit, ('x, 'y, 'c) ocludal) outcome" where
  "step2_loop env max_iter n max_samples sampling_type iter num_samples self =
     (if iter \<le> max_iter \<and> num_samples < max_samples then
        (case step2_body env n sampling_type self of
           Raised e self1 \<Rightarrow> Raised e self1
         | Returned u self1 \<Rightarrow>
             step2_loop env max_iter n max_samples sampling_type (iter + 1)
               (int (length (labelled_X_new self1))) self1)
      else Returned () self)"
  by pat_completeness auto
termination
  by (relation "measure (\<lambda>(env, max_iter, n, max_samples, sampling_type, iter, num_samples, self).
                  nat (max_iter + 1 - iter))")
     auto

definition step2 ::
  "('x, 'y, 'c) collaborators \<Rightarrow> int \<Rightarrow> int \<Rightarrow> int \<Rightarrow> string \<Rightarrow> ('x, 'y, 'c) ocludal
     \<Rightarrow> ('c, ('x, 'y, 'c) ocludal) outcome" where
  "step2 env max_iter n max_samples sampling_type self =
     (let num_samples = int (length (labelled_X_new self));
          self0 = self\<lparr>training_type := ''BvSB''\<rparr>
      in
     (case step2_loop env max_iter n max_samples sampling_type 0 num_samples self0 of
        Raised e self1 \<Rightarrow> Raised e self1
      | Returned u self1 \<Rightarrow>
     (case train_model env self1 of
        Raised e self2 \<Rightarrow> Raised e self2
      | Returned c self2 \<Rightarrow>
     (case run_classification env c self2 of
        Raised e self3 \<Rightarrow> Raised e self3
      | Returned r self3 \<Rightarrow> Returned c self3))))"

section \<open>Pool size and an example pool\<close>

text \<open>\<^verbatim>\<open>len(labelled) + len(unlabelled)\<close>, the quantity the pool invariant is about.\<close>

definition pool_total :: "('x, 'y, 'c) ocludal \<Rightarrow> nat" where
  "pool_total self = length (labelled_X_new self) + length (unlabelled_X_new self)"

text \<open>A pool of four rows, one labelled, used to run the operations on concrete data.\<close>

definition example_pool :: "(nat, string, unit) ocludal" where
  "example_pool =
     \<lparr>labelled_X_new = [10], labelled_y_new = [''a''],
      unlabelled_X_new = [20, 30, 40], unlabelled_y_new = [''b'', ''c'', ''d''],
      unique_labels = [''a''], clf = (), data = [], damping = 0.75, preference = - 180,
      training_type = ''Random'', rng = 0\<rparr>"

section \<open>The margin in the words of the specification, and an example matrix\<close>


text \<open>The probability matrix of the specification's examples.\<close>

definition example_probs :: prob_matrix where
  "example_probs = \<lparr>n_cols = 2, mrows = [[0.9, 0.1], [0.5, 0.5], [0.6, 0.4]]\<rparr>"

section \<open>Example collaborators\<close>

text \<open>
  Collaborators for running the loop on concrete data: a classifier that always predicts
  \<open>''a''\<close> with probabilities \<open>[0.5, 0.5]\<close>, a one-class detector that flags a point
  lying more than 35 away from every training point, a clustering that always fails, and
  a generator whose permutation is the identity.
\<close>

definition example_env :: "(nat, string, unit) collaborators" where
  "example_env =
     \<lparr>fit = (\<lambda>c X y. Inr ()),
      predict = (\<lambda>c X. Inr (map (\<lambda>x. ''a'') X)),
      predict_classes = (\<lambda>c X. Inl CollaboratorError),
      predict_proba = (\<lambda>c X. Inr \<lparr>n_cols = 2, mrows = map (\<lambda>x. [0.5, 0.5]) X\<rparr>),
      f1_score = (\<lambda>y_true y_pred. 0),
      accuracy_score = (\<lambda>y_true y_pred. 0),
      to_csv = (\<lambda>table. None),
      OneClassSVM_fit_predict =
        (\<lambda>train X. Inr (map (\<lambda>x. if list_all (\<lambda>t. x + 35 < t \<or> t + 35 < x) train
                                    then - 1 else 1) X)),
      AffinityPropagation_fit = (\<lambda>d p X. Inl CollaboratorError),
      permutation = (\<lambda>r n. ([0..<n], Suc r))\<rparr>"

text \<open>A pool with two labelled classes, and the record of the first training round on
  \<open>example_pool\<close>.\<close>

definition example_pool2 :: "(nat, string, unit) ocludal" where
  "example_pool2 =
     \<lparr>labelled_X_new = [10, 90], labelled_y_new = [''a'', ''b''],
      unlabelled_X_new = [20, 50, 80], unlabelled_y_new = [''a'', ''c'', ''b''],
      unique_labels = [''a'', ''b''], clf = (), data = [], damping = 0.75, preference = - 180,
      training_type = ''AP'', rng = 0\<rparr>"

definition example_record :: iteration_record where
  "example_record =
     \<lparr>Accuracy = 0, F1_Score = 0, Train_Accuracy = 0, Number_of_Annotations = 1,
      rec_damping = 0.75, rec_preference = - 180, Train_type = ''Random'', Classes = 1\<rparr>"

section \<open>Entropy in the words of the specification\<close>

text \<open>
  From the specification's words, not from the code: the Shannon entropy
  \<^verbatim>\<open>-sum p*log(p)\<close> of a row of class probabilities.
\<close>

definition shannon_entropy :: "real list \<Rightarrow> real" where
  "shannon_entropy row = - (\<Sum>p\<leftarrow>row. p * ln p)"

section \<open>Whole runs\<close>

text \<open>The object as a call leaves it, whether the call returns or raises.\<close>

definition state_of :: "('a, 's) outcome \<Rightarrow> 's" where
  "state_of out = (case out of Raised e s \<Rightarrow> s | Returned v s \<Rightarrow> s)"

text \<open>
  What the loop relies on from its collaborators: the probability matrix has one row per
  sample, the random permutation of a population of size \<open>n\<close> is a list of distinct
  numbers below \<open>n\<close>, and the exemplars returned by the clustering are distinct rows.
\<close>

definition collaborators_contract :: "('x, 'y, 'c) collaborators \<Rightarrow> bool" where
  "collaborators_contract env \<longleftrightarrow>
     (\<forall>c X P. predict_proba env c X = Inr P \<longrightarrow> length (mrows P) = length X) \<and>
     (\<forall>r n. distinct (fst (permutation env r n)) \<and>
            (\<forall>k\<in>set (fst (permutation env r n)). k < n)) \<and>
     (\<forall>d p X C. AffinityPropagation_fit env d p X = Inr C \<longrightarrow> distinct C)"

text \<open>
  The state of a run that started in \<open>start\<close>: arrays in lockstep, the pool size of the
  start, and a results table that extends the one of the start.
\<close>

definition run_inv :: "('x, 'y, 'c) ocludal \<Rightarrow> ('x, 'y, 'c) ocludal \<Rightarrow> bool" where
  "run_inv start self \<longleftrightarrow>
     lockstep self \<and> pool_total self = pool_total start \<and>
     (\<exists>recs. data self = data start @ recs)"

section \<open>Verified properties\<close>

subsection \<open>Facts about the NumPy operations\<close>

lemma normalize_indices_in_range:
  "\<forall>i\<in>set indices. in_range len i \<Longrightarrow> normalize_indices len indices = Inr (map nat indices)"
  by (induction indices) (auto simp: normalize_index_def in_range_def)

lemma normalize_indices_Inr:
  "normalize_indices len indices = Inr js \<Longrightarrow>
     length js = length indices \<and> (\<forall>j\<in>set js. j < len) \<and> (\<forall>i\<in>set indices. - int len \<le> i \<and> i < int len)"
  by (induction indices arbitrary: js)
     (auto simp: normalize_index_def split: if_splits sum.splits)

lemma normalize_indices_Inl:
  "normalize_indices len indices = Inl e \<Longrightarrow> e = IndexError \<and> (\<exists>i\<in>set indices. i < - int len \<or> int len \<le> i)"
  by (induction indices)
     (auto simp: normalize_index_def split: if_splits sum.splits)

lemma normalize_indices_out_of_range:
  "\<exists>i\<in>set indices. i < - int len \<or> int len \<le> i \<Longrightarrow> normalize_indices len indices = Inl IndexError"
proof (cases "normalize_indices len indices")
  case (Inl e)
  then show ?thesis using normalize_indices_Inl [OF Inl] by simp
next
  case (Inr js)
  assume "\<exists>i\<in>set indices. i < - int len \<or> int len \<le> i"
  then show ?thesis using normalize_indices_Inr [OF Inr] by force
qed

lemma length_keep:
  assumes "distinct js" "\<forall>j\<in>set js. j < n"
  shows "length (filter (\<lambda>k. k \<notin> set js) [0..<n]) + length js = n"
proof -
  have "length (filter (\<lambda>k. k \<notin> set js) [0..<n]) = card {k. k < n \<and> k \<notin> set js}"
  proof -
    have "{i. i < n \<and> [0..<n] ! i \<notin> set js} = {k. k < n \<and> k \<notin> set js}" by auto
    then show ?thesis by (simp add: length_filter_conv_card)
  qed
  also have "{k. k < n \<and> k \<notin> set js} = {..<n} - set js" by auto
  also have "card ({..<n} - set js) = n - card (set js)"
    using assms by (subst card_Diff_subset) auto
  also have "card (set js) = length js" using assms by (simp add: distinct_card)
  finally have "length (filter (\<lambda>k. k \<notin> set js) [0..<n]) = n - length js" .
  moreover have "length js \<le> n"
    using assms by (metis \<open>card (set js) = length js\<close> card_mono finite_lessThan lessThan_iff subsetI card_lessThan)
  ultimately show ?thesis by simp
qed

lemma keep_eq_nths:
  "map (\<lambda>k. arr ! k) (filter P [0..<length arr]) = nths arr {k. P k}"
proof (induction arr rule: rev_induct)
  case Nil
  then show ?case by simp
next
  case (snoc x xs)
  have "map (\<lambda>k. (xs @ [x]) ! k) (filter P [0..<length xs]) = map (\<lambda>k. xs ! k) (filter P [0..<length xs])"
    by (rule map_cong) (auto simp: nth_append)
  then show ?case using snoc
    by (auto simp: nths_append)
qed


lemma oracle_annotations_Returned:
  assumes "lockstep self"
    and "normalize_indices (length (unlabelled_X_new self)) indices = Inr js"
  shows "oracle_annotations indices self =
           Returned () (self\<lparr>
             labelled_X_new := labelled_X_new self @ map (\<lambda>j. unlabelled_X_new self ! j) js,
             labelled_y_new := labelled_y_new self @ map (\<lambda>j. unlabelled_y_new self ! j) js,
             unlabelled_X_new := map (\<lambda>k. unlabelled_X_new self ! k)
                (filter (\<lambda>k. k \<notin> set js) [0..<length (unlabelled_X_new self)]),
             unlabelled_y_new := map (\<lambda>k. unlabelled_y_new self ! k)
                (filter (\<lambda>k. k \<notin> set js) [0..<length (unlabelled_y_new self)])\<rparr>)"
  using assms
  by (simp add: oracle_annotations_def fancy_index_def np_delete_def lockstep_def Let_def)

lemma oracle_annotations_Raised:
  assumes "\<exists>i\<in>set indices. i < - int (length (unlabelled_X_new self)) \<or> int (length (unlabelled_X_new self)) \<le> i"
  shows "oracle_annotations indices self = Raised IndexError self"
  using normalize_indices_out_of_range [OF assms]
  by (simp add: oracle_annotations_def fancy_index_def)

lemma run_classification_pool:
  "run_classification env c self = Returned r self' \<or> run_classification env c self = Raised e self' \<Longrightarrow>
     labelled_X_new self' = labelled_X_new self \<and> labelled_y_new self' = labelled_y_new self \<and>
     unlabelled_X_new self' = unlabelled_X_new self \<and> unlabelled_y_new self' = unlabelled_y_new self"
  by (auto simp: run_classification_def Let_def split: sum.splits option.splits prod.splits)

lemma train_model_pool:
  "train_model env self = Returned c self' \<or> train_model env self = Raised e self' \<Longrightarrow>
     labelled_X_new self' = labelled_X_new self \<and> labelled_y_new self' = labelled_y_new self \<and>
     unlabelled_X_new self' = unlabelled_X_new self \<and> unlabelled_y_new self' = unlabelled_y_new self"
  by (auto simp: train_model_def Let_def split: sum.splits outcome.splits dest!: run_classification_pool[OF disjI1] run_classification_pool[OF disjI2])

lemma normalize_indices_total:
  assumes "\<forall>i\<in>set indices. - int len \<le> i \<and> i < int len"
  shows "\<exists>js. normalize_indices len indices = Inr js \<and> length js = length indices"
proof (cases "normalize_indices len indices")
  case (Inl e)
  then show ?thesis using normalize_indices_Inl [OF Inl] assms by force
next
  case (Inr js)
  then show ?thesis using normalize_indices_Inr [OF Inr] by simp
qed

subsection \<open>Pool manager\<close>

text \<open>
  Claim C2.  After annotating a batch of unique, in-range indices the labelled arrays are
  the previous labelled rows followed by the feature vectors and labels that stood at the
  given positions of the unlabelled arrays, in the order given, and the unlabelled arrays
  are the rows at the remaining positions in their previous order.
\<close>

theorem oracle_annotations_moves_rows:
  assumes "lockstep self" and "distinct indices"
    and "\<forall>i\<in>set indices. in_range (length (unlabelled_X_new self)) i"
  shows "\<exists>self'. oracle_annotations indices self = Returned () self' \<and>
           labelled_X_new self' =
             labelled_X_new self @ map (\<lambda>i. unlabelled_X_new self ! nat i) indices \<and>
           labelled_y_new self' =
             labelled_y_new self @ map (\<lambda>i. unlabelled_y_new self ! nat i) indices \<and>
           unlabelled_X_new self' = nths (unlabelled_X_new self) {k. int k \<notin> set indices} \<and>
           unlabelled_y_new self' = nths (unlabelled_y_new self) {k. int k \<notin> set indices}"
proof -
  let ?n = "length (unlabelled_X_new self)"
  have norm: "normalize_indices ?n indices = Inr (map nat indices)"
    using assms(3) by (rule normalize_indices_in_range)
  have mem: "{k. k \<notin> nat ` set indices} = {k. int k \<notin> set indices}"
  proof (rule Collect_cong)
    fix k
    have "k \<in> nat ` set indices \<longleftrightarrow> int k \<in> set indices"
    proof
      assume "k \<in> nat ` set indices"
      then obtain i where i: "i \<in> set indices" "k = nat i" by blast
      then have "0 \<le> i" using assms(3) by (simp add: in_range_def)
      then show "int k \<in> set indices" using i by simp
    next
      assume "int k \<in> set indices"
      then have "nat (int k) \<in> nat ` set indices" by (rule imageI)
      then show "k \<in> nat ` set indices" by simp
    qed
    then show "k \<notin> nat ` set indices \<longleftrightarrow> int k \<notin> set indices" by simp
  qed
  show ?thesis
    using oracle_annotations_Returned [OF assms(1) norm]
    by (simp add: keep_eq_nths mem comp_def)
qed

theorem oracle_annotations_moves_rows_witness:
  "lockstep example_pool \<and> distinct [2, 0 :: int] \<and>
   in_range (length (unlabelled_X_new example_pool)) 2 \<and>
   in_range (length (unlabelled_X_new example_pool)) 0 \<and>
   (\<exists>self'. oracle_annotations [2, 0] example_pool = Returned () self' \<and>
      labelled_X_new self' = [10, 40, 20] \<and> labelled_y_new self' = [''a'', ''d'', ''b''] \<and>
      unlabelled_X_new self' = [30] \<and> unlabelled_y_new self' = [''c''])"
proof -
  have h1: "lockstep example_pool" by (simp add: lockstep_def example_pool_def)
  have h2: "distinct [2, 0 :: int]" by simp
  have h3: "\<forall>i\<in>set [2, 0 :: int]. in_range (length (unlabelled_X_new example_pool)) i"
    by (simp add: in_range_def example_pool_def)
  have n: "nths [a, b, c] {k. k \<noteq> 2 \<and> 0 < k} = [b]" for a b c :: 'a
    by (simp add: nths_Cons)
  show ?thesis
    using oracle_annotations_moves_rows [OF h1 h2 h3] h1 h2 h3
    by (simp add: example_pool_def n)
qed

text \<open>
  Claim C3, as stated, fails: a batch that repeats an index is not rejected.  On the
  example pool the batch \<open>[0, 0]\<close> returns normally, appends row 0 twice to the labelled
  arrays and removes it once from the unlabelled arrays.
\<close>

theorem oracle_annotations_duplicates_counterexample:
  "\<not> distinct [0, 0 :: int] \<and>
   oracle_annotations [0, 0] example_pool =
     Returned () (example_pool\<lparr>labelled_X_new := [10, 20, 20],
       labelled_y_new := [''a'', ''b'', ''b''],
       unlabelled_X_new := [30, 40], unlabelled_y_new := [''c'', ''d'']\<rparr>)"
  by (simp add: oracle_annotations_def fancy_index_def np_delete_def normalize_index_def
      example_pool_def Let_def upt_rec)

text \<open>
  Claim C3, amended.  \<open>oracle_annotations\<close> fails with \<^verbatim>\<open>IndexError\<close> whenever some
  index lies outside the unlabelled arrays (below \<open>-len\<close> or at least \<open>len\<close>), and then
  no array of the object has changed; when the arrays are in lockstep and every index lies
  inside (\<open>-len \<le> i < len\<close>, negative indices counting from the end) the whole move
  completes, repeated indices included.
\<close>

theorem oracle_annotations_all_or_nothing:
  "((\<exists>i\<in>set indices. i < - int (length (unlabelled_X_new self)) \<or>
        int (length (unlabelled_X_new self)) \<le> i) \<longrightarrow>
      oracle_annotations indices self = Raised IndexError self) \<and>
   (lockstep self \<and>
      (\<forall>i\<in>set indices. - int (length (unlabelled_X_new self)) \<le> i \<and>
          i < int (length (unlabelled_X_new self))) \<longrightarrow>
      (\<exists>self' js. normalize_indices (length (unlabelled_X_new self)) indices = Inr js \<and>
         length js = length indices \<and>
         oracle_annotations indices self = Returned () self' \<and>
         labelled_X_new self' = labelled_X_new self @ map (\<lambda>j. unlabelled_X_new self ! j) js \<and>
         labelled_y_new self' = labelled_y_new self @ map (\<lambda>j. unlabelled_y_new self ! j) js \<and>
         unlabelled_X_new self' = nths (unlabelled_X_new self) {k. k \<notin> set js} \<and>
         unlabelled_y_new self' = nths (unlabelled_y_new self) {k. k \<notin> set js}))"
proof (intro conjI impI)
  assume "\<exists>i\<in>set indices. i < - int (length (unlabelled_X_new self)) \<or>
        int (length (unlabelled_X_new self)) \<le> i"
  then show "oracle_annotations indices self = Raised IndexError self"
    by (rule oracle_annotations_Raised)
next
  assume a: "lockstep self \<and>
      (\<forall>i\<in>set indices. - int (length (unlabelled_X_new self)) \<le> i \<and>
          i < int (length (unlabelled_X_new self)))"
  then obtain js where js: "normalize_indices (length (unlabelled_X_new self)) indices = Inr js"
      "length js = length indices"
    using normalize_indices_total by blast
  from a have l: "lockstep self" by simp
  show "\<exists>self' js. normalize_indices (length (unlabelled_X_new self)) indices = Inr js \<and>
         length js = length indices \<and>
         oracle_annotations indices self = Returned () self' \<and>
         labelled_X_new self' = labelled_X_new self @ map (\<lambda>j. unlabelled_X_new self ! j) js \<and>
         labelled_y_new self' = labelled_y_new self @ map (\<lambda>j. unlabelled_y_new self ! j) js \<and>
         unlabelled_X_new self' = nths (unlabelled_X_new self) {k. k \<notin> set js} \<and>
         unlabelled_y_new self' = nths (unlabelled_y_new self) {k. k \<notin> set js}"
    using oracle_annotations_Returned [OF l js(1)] js
    by (simp add: keep_eq_nths)
qed

theorem oracle_annotations_all_or_nothing_witness:
  "(\<exists>i\<in>set [1, 3 :: int]. i < - int (length (unlabelled_X_new example_pool)) \<or>
        int (length (unlabelled_X_new example_pool)) \<le> i) \<and>
   oracle_annotations [1, 3] example_pool = Raised IndexError example_pool \<and>
   lockstep example_pool \<and>
   list_all (\<lambda>i. - int (length (unlabelled_X_new example_pool)) \<le> i \<and>
          i < int (length (unlabelled_X_new example_pool))) [- 1, 0] \<and>
   (\<exists>self'. oracle_annotations [- 1, 0] example_pool = Returned () self' \<and>
      labelled_X_new self' = [10, 40, 20] \<and> labelled_y_new self' = [''a'', ''d'', ''b''] \<and>
      unlabelled_X_new self' = [30] \<and> unlabelled_y_new self' = [''c''])"
proof -
  have h1: "\<exists>i\<in>set [1, 3 :: int]. i < - int (length (unlabelled_X_new example_pool)) \<or>
        int (length (unlabelled_X_new example_pool)) \<le> i"
    by (simp add: example_pool_def)
  have h2: "lockstep example_pool" by (simp add: lockstep_def example_pool_def)
  have h3: "\<forall>i\<in>set [- 1, 0 :: int]. - int (length (unlabelled_X_new example_pool)) \<le> i \<and>
          i < int (length (unlabelled_X_new example_pool))"
    by (simp add: example_pool_def)
  have n: "normalize_indices (length (unlabelled_X_new example_pool)) [- 1, 0] = Inr [2, 0]"
    by (simp add: example_pool_def normalize_index_def)
  have k: "nths [a, b, c] {k. k \<noteq> 2 \<and> 0 < k} = [b]" for a b c :: 'a
    by (simp add: nths_Cons)
  have r1: "oracle_annotations [1, 3] example_pool = Raised IndexError example_pool"
    using oracle_annotations_all_or_nothing [of "[1, 3]" example_pool] h1 by blast
  have r2: "\<exists>self'. oracle_annotations [- 1, 0] example_pool = Returned () self' \<and>
      labelled_X_new self' = [10, 40, 20] \<and> labelled_y_new self' = [''a'', ''d'', ''b''] \<and>
      unlabelled_X_new self' = [30] \<and> unlabelled_y_new self' = [''c'']"
    using oracle_annotations_all_or_nothing [of "[- 1, 0]" example_pool] h2 h3 n
    by (auto simp: example_pool_def k)
  have h3': "list_all (\<lambda>i. - int (length (unlabelled_X_new example_pool)) \<le> i \<and>
          i < int (length (unlabelled_X_new example_pool))) [- 1, 0]"
    by (simp add: example_pool_def)
  show ?thesis using h1 h2 h3' r1 r2 by blast
qed

subsection \<open>Facts about sorting, slicing and the sampling strategies\<close>

lemma length_argsort: "length (argsort xs) = length xs"
  by (simp add: argsort_def)

lemma set_argsort: "set (argsort xs) = {0..<length xs}"
  by (simp add: argsort_def)

lemma distinct_argsort: "distinct (argsort xs)"
  by (simp add: argsort_def)

lemma sorted_argsort: "sorted (map (\<lambda>i. xs ! i) (argsort xs))"
  by (simp add: argsort_def)







lemma map2_map_same: "map2 f xs (map g xs) = map (\<lambda>x. f x (g x)) xs"
  by (induction xs) auto

lemma map2_map_map: "map2 f (map g xs) (map h xs) = map (\<lambda>x. f (g x) (h x)) xs"
  by (induction xs) auto

lemma BvSB_Sampling_eq:
  assumes "2 \<le> n_cols P"
  shows "BvSB_Sampling self P n =
           Inr (slice_to (argsort (map (\<lambda>row. row ! argmax row - row ! (argsort row ! (n_cols P - 2))) (mrows P))) n)"
proof -
  have k: "normalize_index (n_cols P) (- 2) = Inr (n_cols P - 2)"
    using assms by (auto simp: normalize_index_def nat_diff_distrib')
  show ?thesis using assms
    by (simp add: BvSB_Sampling_def Let_def k map2_map_same map2_map_map)
qed



lemma argsort_suffix_largest:
  assumes "i \<in> set (drop k (argsort xs))" "j < length xs" "j \<notin> set (drop k (argsort xs))"
  shows "xs ! j \<le> xs ! i"
proof -
  let ?p = "argsort xs"
  from assms(1) obtain a where a: "k \<le> a" "a < length ?p" "?p ! a = i"
    by (auto simp: in_set_conv_nth) (metis add.commute le_add2 less_diff_conv)
  have "j \<in> set ?p" using assms(2) by (simp add: set_argsort)
  then obtain b where b: "b < length ?p" "?p ! b = j" by (auto simp: in_set_conv_nth)
  have "\<not> k \<le> b"
  proof
    assume "k \<le> b"
    then have "?p ! b \<in> set (drop k ?p)" using b(1)
      by (metis Cons_nth_drop_Suc in_set_dropD list.set_intros(1) set_drop_subset_set_drop subsetD)
    then show False using assms(3) b(2) by simp
  qed
  then have "b \<le> a" using a(1) by simp
  then have "map (\<lambda>i. xs ! i) ?p ! b \<le> map (\<lambda>i. xs ! i) ?p ! a"
    using sorted_argsort [of xs] a(2) by (intro sorted_nth_mono) auto
  then show ?thesis using a b by simp
qed





lemma slice_from_neg_zero: "slice_from_neg xs 0 = xs"
  by (simp add: slice_from_neg_def)


lemma slice_from_neg_drop:
  "0 < n \<Longrightarrow> n \<le> int (length xs) \<Longrightarrow> slice_from_neg xs n = drop (length xs - nat n) xs"
  by (auto simp: slice_from_neg_def Let_def max_def nat_diff_distrib' intro: arg_cong [where f = "\<lambda>k. drop k xs"])

lemma Entropy_Sampling_eq:
  "Entropy_Sampling self P n =
     Inr (slice_from_neg (argsort (map (row_entropy (n_cols P)) (mrows P))) n)"
  by (simp add: Entropy_Sampling_def Let_def)

subsection \<open>Best-versus-second-best sampling\<close>



subsection \<open>Entropy sampling\<close>

text \<open>
  Claim C5 at the batch size \<open>n = 0\<close>: the slice \<^verbatim>\<open>[-n:]\<close> is then \<^verbatim>\<open>[0:]\<close>, and
  \<open>Entropy_Sampling\<close> returns the indices of all three rows of the example matrix instead
  of none.
\<close>

theorem Entropy_Sampling_zero_returns_all:
  "\<exists>indices. Entropy_Sampling example_pool example_probs 0 = Inr indices \<and>
      length indices = 3 \<and> set indices = {0, 1, 2}"
proof -
  have "{0..<Suc (Suc (Suc 0))} = {0, Suc 0, 2}" by auto
  then show ?thesis
    by (simp add: Entropy_Sampling_eq slice_from_neg_zero length_argsort set_argsort
        example_probs_def)
qed

text \<open>
  For a batch size between 1 and the number of rows the selection is the intended one:
  \<open>n\<close> distinct rows, none left out having a larger entropy than a row selected, and
  on the example matrix \<open>n = 1\<close> selects the row \<open>[0.5, 0.5]\<close>.
\<close>

lemma row_entropy_shannon: "length row = k \<Longrightarrow> row_entropy k row = shannon_entropy row"
proof -
  assume "length row = k"
  then have "map (\<lambda>i. row ! i * ln (row ! i)) [0..<k] = map (\<lambda>p. p * ln p) (map (\<lambda>i. row ! i) [0..<length row])"
    by simp
  then show ?thesis by (simp only: row_entropy_def shannon_entropy_def map_nth)
qed

lemma Entropy_Sampling_largest:
  assumes "well_shaped P" and "0 < n" and "n \<le> int (length (mrows P))"
  shows "\<exists>indices. Entropy_Sampling self P n = Inr indices \<and>
           length indices = nat n \<and> distinct indices \<and>
           (\<forall>i\<in>set indices. i < length (mrows P)) \<and>
           (\<forall>i\<in>set indices. \<forall>j<length (mrows P). j \<notin> set indices \<longrightarrow>
              shannon_entropy (mrows P ! j) \<le> shannon_entropy (mrows P ! i))"
proof -
  let ?e = "map (row_entropy (n_cols P)) (mrows P)"
  let ?m = "length (mrows P)"
  let ?ix = "drop (?m - nat n) (argsort ?e)"
  have e: "?e ! i = shannon_entropy (mrows P ! i)" if "i < ?m" for i
  proof -
    have "length (mrows P ! i) = n_cols P"
      using assms(1) that by (simp add: well_shaped_def list_all_length)
    then show ?thesis using that by (simp add: row_entropy_shannon)
  qed
  have "slice_from_neg (argsort ?e) n = ?ix"
    using slice_from_neg_drop [of n "argsort ?e"] assms(2,3) by (simp add: length_argsort)
  then have r: "Entropy_Sampling self P n = Inr ?ix" by (simp only: Entropy_Sampling_eq)
  have l: "length ?ix = nat n" using assms(2,3) by (simp add: length_argsort)
  have d: "distinct ?ix" by (simp add: distinct_argsort)
  have b: "i < ?m" if "i \<in> set ?ix" for i
    using in_set_dropD [OF that] by (simp add: set_argsort)
  have s: "shannon_entropy (mrows P ! j) \<le> shannon_entropy (mrows P ! i)"
    if "i \<in> set ?ix" "j < ?m" "j \<notin> set ?ix" for i j
  proof -
    have "?e ! j \<le> ?e ! i"
      using that by (intro argsort_suffix_largest [of i "?m - nat n" ?e j]) auto
    then show ?thesis using e [OF b [OF that(1)]] e [OF that(2)] by simp
  qed
  show ?thesis using r l d b s by blast
qed

lemma ln_less_minus_one:
  assumes "0 < x" "x \<noteq> 1"
  shows "ln x < x - (1 :: real)"
  using ln_le_minus_one [OF assms(1)] ln_eq_minus_one [OF assms(1)] assms(2)
  by (cases "ln x = x - 1") auto

lemma half_term_le:
  assumes "0 < (p :: real)"
  shows "p * (- ln 2 - ln p) \<le> 1 / 2 - p"
proof -
  have "ln (1 / (2 * p)) \<le> 1 / (2 * p) - 1"
    using assms by (intro ln_le_minus_one) simp
  moreover have "ln (1 / (2 * p)) = - ln 2 - ln p"
    using assms by (simp add: ln_div ln_mult)
  ultimately have "p * (- ln 2 - ln p) \<le> p * (1 / (2 * p) - 1)"
    using assms by (intro mult_left_mono) auto
  moreover have "p * (1 / (2 * p) - 1) = 1 / 2 - p" using assms by (simp add: field_simps)
  ultimately show ?thesis by simp
qed

lemma half_term_less:
  assumes "0 < (p :: real)" "p \<noteq> 1 / 2"
  shows "p * (- ln 2 - ln p) < 1 / 2 - p"
proof -
  have "ln (1 / (2 * p)) < 1 / (2 * p) - 1"
    using assms by (intro ln_less_minus_one) (auto simp: field_simps)
  moreover have "ln (1 / (2 * p)) = - ln 2 - ln p"
    using assms by (simp add: ln_div ln_mult)
  ultimately have "p * (- ln 2 - ln p) < p * (1 / (2 * p) - 1)"
    using assms(1) by (intro mult_strict_left_mono) auto
  moreover have "p * (1 / (2 * p) - 1) = 1 / 2 - p" using assms by (simp add: field_simps)
  ultimately show ?thesis by simp
qed

lemma binary_entropy_less:
  assumes "0 < p" "p < 1" "p \<noteq> 1 / 2"
  shows "- (p * ln p + (1 - p) * ln (1 - p)) < ln (2 :: real)"
proof -
  define q where "q = 1 - p"
  have q: "0 < q" using assms by (simp add: q_def)
  have A: "p * (- ln 2 - ln p) < 1 / 2 - p" using assms by (intro half_term_less) auto
  have B: "q * (- ln 2 - ln q) \<le> 1 / 2 - q" using q by (rule half_term_le)
  have "p * (- ln 2 - ln p) + q * (- ln 2 - ln q) < 0" using A B by (simp add: q_def)
  moreover have "p * (- ln 2 - ln p) + q * (- ln 2 - ln q)
      = - (p * ln p + q * ln q) - ln 2"
    by (simp add: algebra_simps q_def)
  ultimately show ?thesis by (simp add: q_def)
qed

lemma shannon_entropy_pair: "shannon_entropy [p, q] = - (p * ln p + q * ln q)"
  by (simp add: shannon_entropy_def)

lemma example_entropies:
  "shannon_entropy [0.9, 0.1] < shannon_entropy [0.5, 0.5]"
  "shannon_entropy [0.6, 0.4] < shannon_entropy [0.5, 0.5]"
proof -
  have "ln (1 / 2 :: real) = - ln 2" by (simp add: ln_div)
  then have h: "shannon_entropy [0.5, 0.5] = ln 2" by (simp add: shannon_entropy_pair)
  have "- ((9 / 10) * ln (9 / 10) + (1 - 9 / 10) * ln (1 - 9 / 10)) < ln (2 :: real)"
    by (intro binary_entropy_less) simp_all
  then have a: "shannon_entropy [0.9, 0.1] < ln 2" by (simp add: shannon_entropy_pair)
  have "- ((6 / 10) * ln (6 / 10) + (1 - 6 / 10) * ln (1 - 6 / 10)) < ln (2 :: real)"
    by (intro binary_entropy_less) simp_all
  then have b: "shannon_entropy [0.6, 0.4] < ln 2" by (simp add: shannon_entropy_pair)
  show "shannon_entropy [0.9, 0.1] < shannon_entropy [0.5, 0.5]" using a by (simp only: h)
  show "shannon_entropy [0.6, 0.4] < shannon_entropy [0.5, 0.5]" using b by (simp only: h)
qed

lemma example_Entropy: "Entropy_Sampling self example_probs 1 = Inr [1]"
proof -
  have w: "well_shaped example_probs" by (simp add: well_shaped_def example_probs_def)
  have n: "(1 :: int) \<le> int (length (mrows example_probs))" by (simp add: example_probs_def)
  obtain indices where r: "Entropy_Sampling self example_probs 1 = Inr indices"
    and l: "length indices = 1"
    and b: "\<forall>i\<in>set indices. i < length (mrows example_probs)"
    and s: "\<forall>i\<in>set indices. \<forall>j<length (mrows example_probs). j \<notin> set indices \<longrightarrow>
              shannon_entropy (mrows example_probs ! j) \<le> shannon_entropy (mrows example_probs ! i)"
    using Entropy_Sampling_largest [OF w _ n, of self] by auto
  from l obtain i where i: "indices = [i]" by (cases indices) auto
  have i3: "i < 3" using b i by (simp add: example_probs_def)
  have "i = 1"
  proof (rule ccontr)
    assume ne: "i \<noteq> 1"
    have "1 < length (mrows example_probs)" by (simp add: example_probs_def)
    moreover have "1 \<notin> set indices" using ne i by simp
    moreover have "i \<in> set indices" using i by simp
    ultimately have "shannon_entropy (mrows example_probs ! 1)
        \<le> shannon_entropy (mrows example_probs ! i)"
      using s by blast
    moreover from ne i3 have "i = 0 \<or> i = 2" by auto
    ultimately show False using example_entropies by (auto simp: example_probs_def)
  qed
  then show ?thesis using r i by simp
qed

subsection \<open>Determinism of the uncertainty strategies\<close>



subsection \<open>Errors of the sampling strategies\<close>




subsection \<open>Novelty scan of phase 1\<close>

lemma np_all_axis0_spec:
  assumes "masks \<noteq> []" and "\<forall>m\<in>set masks. length m = n"
  shows "\<exists>r. np_all_axis0 masks = Inr r \<and> length r = n \<and>
           (\<forall>i<n. r ! i \<longleftrightarrow> (\<forall>m\<in>set masks. m ! i))"
  using assms
proof (induction masks rule: np_all_axis0.induct)
  case 1
  then show ?case by simp
next
  case (2 m)
  then show ?case by simp
next
  case (3 m m' ms)
  then obtain r where r: "np_all_axis0 (m' # ms) = Inr r" "length r = n"
      "\<forall>i<n. r ! i \<longleftrightarrow> (\<forall>k\<in>set (m' # ms). k ! i)"
    by auto
  have lm: "length m = n" using 3(3) by simp
  have "np_all_axis0 (m # m' # ms) = Inr (map2 (\<lambda>a b. a \<and> b) m r)"
    using r lm by simp
  moreover have "length (map2 (\<lambda>a b. a \<and> b) m r) = n" using r lm by simp
  moreover have "\<forall>i<n. map2 (\<lambda>a b. a \<and> b) m r ! i \<longleftrightarrow> (\<forall>k\<in>set (m # m' # ms). k ! i)"
    using r lm by auto
  ultimately show ?case by blast
qed

lemma nths_cong_below:
  assumes "\<And>i. i < length xs \<Longrightarrow> i \<in> A \<longleftrightarrow> i \<in> B"
  shows "nths xs A = nths xs B"
proof -
  have "filter (\<lambda>p. snd p \<in> A) (zip xs [0..<length xs]) = filter (\<lambda>p. snd p \<in> B) (zip xs [0..<length xs])"
    by (rule filter_cong [OF refl]) (auto simp: set_zip assms)
  then show ?thesis by (simp add: nths_def)
qed

lemma filter_zip_flags:
  "length flags = length arr \<Longrightarrow>
     map fst (filter snd (zip arr flags)) = nths arr {i. i < length flags \<and> flags ! i}"
proof (induction arr arbitrary: flags rule: rev_induct)
  case Nil
  then show ?case by simp
next
  case (snoc x xs)
  then obtain fs f where f: "flags = fs @ [f]" "length fs = length xs"
    by (metis length_append_singleton length_Suc_conv_rev)
  have "nths xs {i. i < length (fs @ [f]) \<and> (fs @ [f]) ! i} = nths xs {i. i < length fs \<and> fs ! i}"
    using f(2) by (intro nths_cong_below) (auto simp: nth_append)
  then show ?case using snoc.IH [OF f(2)] f
    by (auto simp: nths_append nth_append)
qed

lemma boolean_index_nths:
  "length flags = length arr \<Longrightarrow>
     boolean_index arr flags = Inr (nths arr {i. i < length flags \<and> flags ! i})"
  by (simp add: boolean_index_def filter_zip_flags)

lemma detector_masks_length:
  "detector_masks env self labels = Inr masks \<Longrightarrow> length masks = length labels"
  by (induction labels arbitrary: masks) (auto simp: Let_def split: sum.splits)

text \<open>
  Claim C7.  When the per-label detectors return one mask each, of the length of the
  unlabelled array, position \<open>i\<close> of the combined mask is true exactly when every
  detector's mask is true at \<open>i\<close>, and the novel set consists of the unlabelled rows at
  exactly those positions, in order: a point that some detector does not flag is not in it.
\<close>

theorem novelty_all_detectors:
  assumes "detector_masks env self (unique_labels self) = Inr masks"
    and "masks \<noteq> []"
    and "\<forall>m\<in>set masks. length m = length (unlabelled_X_new self)"
  shows "length masks = length (unique_labels self) \<and>
         (\<exists>novel_mask. novel_mask_of env self = Inr novel_mask \<and>
            length novel_mask = length (unlabelled_X_new self) \<and>
            (\<forall>i<length (unlabelled_X_new self). novel_mask ! i \<longleftrightarrow> (\<forall>m\<in>set masks. m ! i))) \<and>
         novelty_scan env self = Inr (nths (unlabelled_X_new self) {i. \<forall>m\<in>set masks. m ! i})"
proof -
  let ?n = "length (unlabelled_X_new self)"
  obtain r where r: "np_all_axis0 masks = Inr r" "length r = ?n"
      "\<forall>i<?n. r ! i \<longleftrightarrow> (\<forall>m\<in>set masks. m ! i)"
    using np_all_axis0_spec [OF assms(2,3)] by blast
  have nm: "novel_mask_of env self = Inr r"
    using assms(1) r(1) by (simp add: novel_mask_of_def)
  have "nths (unlabelled_X_new self) {i. i < length r \<and> r ! i}
      = nths (unlabelled_X_new self) {i. \<forall>m\<in>set masks. m ! i}"
    using r(2,3) by (intro nths_cong_below) auto
  then have "novelty_scan env self = Inr (nths (unlabelled_X_new self) {i. \<forall>m\<in>set masks. m ! i})"
    using nm r(2) by (simp add: novelty_scan_def boolean_index_nths)
  then show ?thesis using detector_masks_length [OF assms(1)] nm r by blast
qed

lemma example_masks:
  "detector_masks example_env example_pool2 (unique_labels example_pool2) =
     Inr [[False, True, True], [True, True, False]]"
  by (simp add: example_env_def example_pool2_def boolean_index_def)

theorem novelty_all_detectors_witness:
  "detector_masks example_env example_pool2 (unique_labels example_pool2) =
     Inr [[False, True, True], [True, True, False]] \<and>
   [[False, True, True], [True, True, False]] \<noteq> [] \<and>
   list_all (\<lambda>m. length m = length (unlabelled_X_new example_pool2))
     [[False, True, True], [True, True, False]] \<and>
   novel_mask_of example_env example_pool2 = Inr [False, True, False] \<and>
   novelty_scan example_env example_pool2 = Inr [50]"
proof -
  let ?masks = "[[False, True, True], [True, True, False]]"
  have h2: "?masks \<noteq> []" by simp
  have h3: "\<forall>m\<in>set ?masks. length m = length (unlabelled_X_new example_pool2)"
    by (simp add: example_pool2_def)
  have k: "nths [a, b, c] {i. [False, True, True] ! i \<and> [True, True, False] ! i} = [b]"
    for a b c :: 'a
    by (simp add: nths_Cons)
  have m: "novel_mask_of example_env example_pool2 = Inr [False, True, False]"
    by (simp add: novel_mask_of_def example_masks)
  have "novelty_scan example_env example_pool2 = Inr [50]"
    using novelty_all_detectors [OF example_masks h2 h3] k
    by (simp add: example_pool2_def)
  then show ?thesis using example_masks h3 m by simp
qed

subsection \<open>Iteration records\<close>

lemma run_classification_appends:
  assumes "run_classification env c self = Returned r self'"
  shows "\<exists>rec. self' = self\<lparr>data := data self @ [rec]\<rparr> \<and>
           Number_of_Annotations rec = length (labelled_X_new self) \<and>
           rec_damping rec = damping self \<and> rec_preference rec = preference self \<and>
           Train_type rec = training_type self \<and>
           Classes rec = length (remdups (labelled_y_new self))"
  using assms
  by (auto simp: run_classification_def Let_def split: sum.splits option.splits prod.splits)

lemma train_model_appends:
  assumes "train_model env self = Returned c self'"
  shows "fit env (clf self) (labelled_X_new self) (labelled_y_new self) = Inr c \<and>
         (\<exists>rec. self' = self\<lparr>clf := c, data := data self @ [rec]\<rparr> \<and>
           Number_of_Annotations rec = length (labelled_X_new self) \<and>
           Train_type rec = training_type self \<and>
           Classes rec = length (remdups (labelled_y_new self)))"
proof -
  from assms obtain r where f: "fit env (clf self) (labelled_X_new self) (labelled_y_new self) = Inr c"
    and rc: "run_classification env c (self\<lparr>clf := c\<rparr>) = Returned r self'"
    by (auto simp: train_model_def Let_def split: sum.splits outcome.splits)
  show ?thesis using run_classification_appends [OF rc] f by auto
qed

text \<open>
  Claim C9.  When the first training round of \<open>step1\<close> completes, one further iteration
  is allowed and its novelty scan finds no novel point, \<open>step1\<close> returns at once: the
  object is the one left by that single training round (the classifier fitted once on the
  labelled arrays, one record appended) with the training type set, and no clustering or
  annotation has taken place.
\<close>

theorem step1_no_novelty:
  assumes "train_model env self = Returned c self1"
    and "0 < max_iter" and "int (length (labelled_X_new self)) < max_samples"
    and "novelty_scan env (self1\<lparr>training_type := ''AP''\<rparr>) = Inr []"
  shows "step1 env max_iter max_samples self = Returned () (self1\<lparr>training_type := ''AP''\<rparr>) \<and>
         fit env (clf self) (labelled_X_new self) (labelled_y_new self) = Inr c \<and>
         (\<exists>rec. self1 = self\<lparr>clf := c, data := data self @ [rec]\<rparr> \<and>
            Number_of_Annotations rec = length (labelled_X_new self))"
proof -
  have p: "labelled_X_new self1 = labelled_X_new self"
    using train_model_pool [OF disjI1, OF assms(1)] by simp
  have "step1_loop env max_iter max_samples 0 (self1\<lparr>training_type := ''AP''\<rparr>)
          = Returned () (self1\<lparr>training_type := ''AP''\<rparr>)"
    by (subst step1_loop.simps) (simp add: assms(2,3,4) p)
  then have "step1 env max_iter max_samples self = Returned () (self1\<lparr>training_type := ''AP''\<rparr>)"
    using assms(1) by (simp add: step1_def)
  then show ?thesis using train_model_appends [OF assms(1)] by auto
qed

lemma example_train:
  "train_model example_env example_pool = Returned () (example_pool\<lparr>data := [example_record]\<rparr>)"
  by (simp add: train_model_def run_classification_def predictions_def example_env_def
      example_pool_def example_record_def Let_def)

theorem step1_no_novelty_witness:
  "train_model example_env example_pool = Returned () (example_pool\<lparr>data := [example_record]\<rparr>) \<and>
   (0 :: int) < 1 \<and> int (length (labelled_X_new example_pool)) < 800 \<and>
   novelty_scan example_env (example_pool\<lparr>data := [example_record], training_type := ''AP''\<rparr>) = Inr [] \<and>
   step1 example_env 1 800 example_pool =
     Returned () (example_pool\<lparr>data := [example_record], training_type := ''AP''\<rparr>)"
proof -
  have h2: "(0 :: int) < 1" by simp
  have h3: "int (length (labelled_X_new example_pool)) < 800" by (simp add: example_pool_def)
  have h4: "novelty_scan example_env
      (example_pool\<lparr>data := [example_record]\<rparr>\<lparr>training_type := ''AP''\<rparr>) = Inr []"
    by (simp add: novelty_scan_def novel_mask_of_def boolean_index_def example_env_def
        example_pool_def)
  show ?thesis
    using step1_no_novelty [OF example_train h2 h3 h4] example_train h3 h4 by simp
qed

text \<open>
  Claim C8 on a run of \<open>step2\<close> with \<open>max_iter = 0\<close> and batch size 1 from the example
  pool: the classifier is trained twice, on 1 and on 2 labelled rows, and four records are
  appended, two per training round, since \<open>step2\<close> calls \<open>run_classification\<close> again
  after \<open>train_model\<close> has already called it.
\<close>

theorem step2_two_records_per_retrain:
  "\<exists>c self'. step2 example_env 0 1 1000 ''BvSB'' example_pool = Returned c self' \<and>
      labelled_X_new self' = [10, 20] \<and>
      map Number_of_Annotations (data self') = [1, 1, 2, 2]"
proof -
  have "step2 example_env 0 1 1000 ''BvSB'' example_pool =
     Returned () (example_pool\<lparr>labelled_X_new := [10, 20], labelled_y_new := [''a'', ''b''],
        unlabelled_X_new := [30, 40], unlabelled_y_new := [''c'', ''d''],
        data := [example_record\<lparr>Train_type := ''BvSB''\<rparr>, example_record\<lparr>Train_type := ''BvSB''\<rparr>,
                 example_record\<lparr>Train_type := ''BvSB'', Number_of_Annotations := 2, Classes := 2\<rparr>,
                 example_record\<lparr>Train_type := ''BvSB'', Number_of_Annotations := 2, Classes := 2\<rparr>],
        training_type := ''BvSB''\<rparr>)"
    apply (simp add: step2_def Let_def)
    apply (subst step2_loop.simps)
    apply (simp add: example_pool_def)
    apply (subst step2_loop.simps)
    apply (simp add: step2_body_def train_model_def run_classification_def predictions_def
        example_env_def example_record_def Let_def select_indices_def
        BvSB_Sampling_def normalize_index_def argsort_def slice_to_def upt_conv_Cons
        oracle_annotations_def fancy_index_def np_delete_def)
    done
  then show ?thesis by (simp add: example_record_def)
qed

subsection \<open>The pool invariant through both phases\<close>

lemma state_of_simps [simp]:
  "state_of (Raised e s) = s" "state_of (Returned v s) = s"
  by (simp_all add: state_of_def)

lemma run_inv_refl: "lockstep self \<Longrightarrow> run_inv self self"
  by (simp add: run_inv_def)

lemma run_inv_training_type: "run_inv start self \<Longrightarrow> run_inv start (self\<lparr>training_type := t\<rparr>)"
  by (simp add: run_inv_def lockstep_def pool_total_def)

lemma run_inv_rng: "run_inv start self \<Longrightarrow> run_inv start (self\<lparr>rng := t\<rparr>)"
  by (simp add: run_inv_def lockstep_def pool_total_def)

lemma run_classification_inv:
  "run_inv start self \<Longrightarrow> run_inv start (state_of (run_classification env c self))"
  by (auto simp: run_classification_def Let_def run_inv_def lockstep_def pool_total_def
      split: sum.splits option.splits prod.splits)

lemma train_model_inv:
  assumes "run_inv start self"
  shows "run_inv start (state_of (train_model env self))"
proof (cases "fit env (clf self) (labelled_X_new self) (labelled_y_new self)")
  case (Inl e)
  then show ?thesis using assms by (simp add: train_model_def)
next
  case (Inr c)
  have "run_inv start (self\<lparr>clf := c\<rparr>)"
    using assms by (simp add: run_inv_def lockstep_def pool_total_def)
  from run_classification_inv [OF this, of env c] show ?thesis
    using Inr by (cases "run_classification env c (self\<lparr>clf := c\<rparr>)") (simp_all add: train_model_def)
qed

lemma normalize_indices_nat:
  "\<forall>k\<in>set ks. k < len \<Longrightarrow> normalize_indices len (map int ks) = Inr ks"
  by (induction ks) (auto simp: normalize_index_def)

lemma oracle_annotations_inv:
  assumes "run_inv start self" and "distinct ks"
    and "\<forall>k\<in>set ks. k < length (unlabelled_X_new self)"
  shows "run_inv start (state_of (oracle_annotations (map int ks) self))"
proof -
  let ?n = "length (unlabelled_X_new self)"
  have l: "lockstep self" using assms(1) by (simp add: run_inv_def)
  have keep: "length (filter (\<lambda>k. k \<notin> set ks) [0..<?n]) + length ks = ?n"
    using assms(2,3) by (rule length_keep)
  have ny: "length (unlabelled_y_new self) = ?n" using l by (simp add: lockstep_def)
  show ?thesis
    using oracle_annotations_Returned [OF l normalize_indices_nat [OF assms(3)]] keep ny assms(1)
    by (simp add: run_inv_def lockstep_def pool_total_def)
qed

lemma slice_to_is_take: "\<exists>k. slice_to xs n = take k xs"
  by (auto simp: slice_to_def Let_def)

lemma slice_from_neg_is_drop: "\<exists>k. slice_from_neg xs n = drop k xs"
  by (auto simp: slice_from_neg_def Let_def)

lemma BvSB_Sampling_indices:
  assumes "BvSB_Sampling self P n = Inr indices"
  shows "distinct indices \<and> (\<forall>k\<in>set indices. k < length (mrows P))"
proof -
  have c: "2 \<le> n_cols P"
    using assms by (auto simp: BvSB_Sampling_def Let_def normalize_index_def split: if_splits)
  let ?d = "map (\<lambda>row. row ! argmax row - row ! (argsort row ! (n_cols P - 2))) (mrows P)"
  obtain k where "slice_to (argsort ?d) n = take k (argsort ?d)"
    using slice_to_is_take by blast
  then have i: "indices = take k (argsort ?d)"
    using assms BvSB_Sampling_eq [OF c, of self n] by simp
  have "set indices \<subseteq> set (argsort ?d)" unfolding i by (rule set_take_subset)
  then show ?thesis unfolding i by (auto simp: distinct_argsort set_argsort)
qed

lemma Entropy_Sampling_indices:
  assumes "Entropy_Sampling self P n = Inr indices"
  shows "distinct indices \<and> (\<forall>k\<in>set indices. k < length (mrows P))"
proof -
  let ?e = "map (row_entropy (n_cols P)) (mrows P)"
  obtain k where "slice_from_neg (argsort ?e) n = drop k (argsort ?e)"
    using slice_from_neg_is_drop by blast
  then have i: "indices = drop k (argsort ?e)"
    using assms by (simp add: Entropy_Sampling_eq)
  have "set indices \<subseteq> set (argsort ?e)" unfolding i by (rule set_drop_subset)
  then show ?thesis unfolding i by (auto simp: distinct_argsort set_argsort)
qed

lemma Random_sampling_indices:
  assumes "collaborators_contract env"
    and "Random_sampling env n self = Returned indices self'"
  shows "distinct indices \<and> (\<forall>k\<in>set indices. k < length (unlabelled_X_new self)) \<and>
         self' = self\<lparr>rng := rng self'\<rparr>"
proof -
  let ?m = "length (unlabelled_X_new self)"
  obtain perm r where p: "permutation env (rng self) ?m = (perm, r)" by (cases "permutation env (rng self) ?m")
  have c: "distinct perm \<and> (\<forall>k\<in>set perm. k < ?m)"
    using assms(1) p unfolding collaborators_contract_def by (metis fst_conv)
  have i: "indices = take (nat n) perm" "self' = self\<lparr>rng := r\<rparr>"
    using assms(2) p by (auto simp: Random_sampling_def Let_def split: if_splits)
  have "set indices \<subseteq> set perm" unfolding i by (rule set_take_subset)
  then show ?thesis using c i by auto
qed

lemma select_indices_inv:
  assumes "collaborators_contract env" and "run_inv start self"
    and "length (mrows P) = length (unlabelled_X_new self)"
  shows "run_inv start (state_of (select_indices env sampling_type P n self)) \<and>
         (\<forall>indices self'. select_indices env sampling_type P n self = Returned indices self' \<longrightarrow>
            distinct indices \<and> (\<forall>k\<in>set indices. k < length (unlabelled_X_new self')))"
proof -
  have R: "run_inv start (state_of (Random_sampling env n self)) \<and>
         (\<forall>indices self'. Random_sampling env n self = Returned indices self' \<longrightarrow>
            distinct indices \<and> (\<forall>k\<in>set indices. k < length (unlabelled_X_new self')))"
  proof (cases "Random_sampling env n self")
    case (Raised e s)
    then have "s = self" by (auto simp: Random_sampling_def Let_def split: if_splits prod.splits)
    then show ?thesis using Raised assms(2) by simp
  next
    case (Returned indices s)
    from Random_sampling_indices [OF assms(1) Returned]
    have d: "distinct indices" "\<forall>k\<in>set indices. k < length (unlabelled_X_new self)"
      and s: "s = self\<lparr>rng := rng s\<rparr>" by auto
    have "run_inv start s" using run_inv_rng [OF assms(2), of "rng s"] s by simp
    moreover have "unlabelled_X_new s = unlabelled_X_new self" by (subst s) simp
    ultimately show ?thesis using Returned d by simp
  qed
  show ?thesis
    using R assms(2,3) BvSB_Sampling_indices [of self P n] Entropy_Sampling_indices [of self P n]
    by (auto simp: select_indices_def split: sum.splits)
qed

lemma step2_body_inv:
  assumes "collaborators_contract env" and "run_inv start self"
  shows "run_inv start (state_of (step2_body env n sampling_type self))"
proof (cases "train_model env self")
  case (Raised e s1)
  then show ?thesis using train_model_inv [OF assms(2), of env] by (simp add: step2_body_def)
next
  case t: (Returned c s1)
  then have i1: "run_inv start s1" using train_model_inv [OF assms(2), of env] by simp
  show ?thesis
  proof (cases "run_classification env c s1")
    case (Raised e s2)
    then show ?thesis using run_classification_inv [OF i1, of env c] t by (simp add: step2_body_def)
  next
    case r: (Returned v s2)
    then have i2: "run_inv start s2" using run_classification_inv [OF i1, of env c] by simp
    show ?thesis
    proof (cases "predict_proba env c (unlabelled_X_new s2)")
      case (Inl e)
      then show ?thesis using t r i2 by (simp add: step2_body_def)
    next
      case (Inr P)
      then have lp: "length (mrows P) = length (unlabelled_X_new s2)"
        using assms(1) unfolding collaborators_contract_def by blast
      note sel = select_indices_inv [OF assms(1) i2 lp, of sampling_type n]
      show ?thesis
      proof (cases "select_indices env sampling_type P n s2")
        case (Raised e s3)
        then show ?thesis using sel t r Inr by (simp add: step2_body_def)
      next
        case (Returned indices s3)
        then have "run_inv start s3" "distinct indices"
          "\<forall>k\<in>set indices. k < length (unlabelled_X_new s3)"
          using sel by auto
        from oracle_annotations_inv [OF this] show ?thesis
          using t r Inr Returned by (simp add: step2_body_def)
      qed
    qed
  qed
qed

lemma step2_loop_inv:
  assumes "collaborators_contract env" and "run_inv start self"
  shows "run_inv start
           (state_of (step2_loop env max_iter n max_samples sampling_type iter num_samples self))"
  using assms
proof (induction env max_iter n max_samples sampling_type iter num_samples self
    rule: step2_loop.induct)
  case (1 env max_iter n max_samples sampling_type iter num_samples self)
  show ?case
  proof (cases "iter \<le> max_iter \<and> num_samples < max_samples")
    case False
    have "step2_loop env max_iter n max_samples sampling_type iter num_samples self
        = Returned () self"
      by (subst step2_loop.simps) (simp only: False if_False)
    then show ?thesis using "1.prems"(2) by simp
  next
    case True
    show ?thesis
    proof (cases "step2_body env n sampling_type self")
      case (Raised e s1)
      then show ?thesis
        using step2_body_inv [OF "1.prems", of n sampling_type] True
        by (subst step2_loop.simps) simp
    next
      case (Returned u s1)
      then have "run_inv start s1"
        using step2_body_inv [OF "1.prems", of n sampling_type] by simp
      from "1.IH" [OF True Returned "1.prems"(1) this] show ?thesis
        using True Returned by (subst step2_loop.simps) simp
    qed
  qed
qed

lemma step2_inv:
  assumes "collaborators_contract env" and "lockstep self"
  shows "run_inv self (state_of (step2 env max_iter n max_samples sampling_type self))"
proof -
  let ?s0 = "self\<lparr>training_type := ''BvSB''\<rparr>"
  let ?loop = "step2_loop env max_iter n max_samples sampling_type 0
                 (int (length (labelled_X_new self))) ?s0"
  have i0: "run_inv self ?s0"
    using run_inv_training_type [OF run_inv_refl [OF assms(2)]] .
  have il: "run_inv self (state_of ?loop)" using step2_loop_inv [OF assms(1) i0] .
  show ?thesis
  proof (cases ?loop)
    case (Raised e s1)
    then show ?thesis using il by (simp add: step2_def Let_def)
  next
    case l: (Returned u s1)
    then have i1: "run_inv self s1" using il by simp
    show ?thesis
    proof (cases "train_model env s1")
      case (Raised e s2)
      then show ?thesis using train_model_inv [OF i1, of env] l by (simp add: step2_def Let_def)
    next
      case t: (Returned c s2)
      then have i2: "run_inv self s2" using train_model_inv [OF i1, of env] by simp
      show ?thesis
        using run_classification_inv [OF i2, of env c] l t
        by (cases "run_classification env c s2") (simp_all add: step2_def Let_def)
    qed
  qed
qed

lemma where_first_Inr: "where_first arr sample = Inr k \<Longrightarrow> k < length arr \<and> arr ! k = sample"
proof -
  assume a: "where_first arr sample = Inr k"
  then obtain rest where "filter (\<lambda>k. arr ! k = sample) [0..<length arr] = k # rest"
    by (auto simp: where_first_def split: list.splits)
  then have "k \<in> set (filter (\<lambda>k. arr ! k = sample) [0..<length arr])" by simp
  then show ?thesis by simp
qed

lemma representative_indices_Inr:
  "representative_indices arr samples = Inr ks \<Longrightarrow>
     (\<forall>k\<in>set ks. k < length arr) \<and> map (\<lambda>k. arr ! k) ks = samples"
  by (induction samples arbitrary: ks)
     (auto split: sum.splits dest: where_first_Inr)

lemma step1_loop_inv:
  assumes "collaborators_contract env" and "run_inv start self"
  shows "run_inv start (state_of (step1_loop env max_iter max_samples iter_count self))"
  using assms
proof (induction env max_iter max_samples iter_count self rule: step1_loop.induct)
  case (1 env max_iter max_samples iter_count self)
  let ?c = "iter_count < max_iter \<and> int (length (labelled_X_new self)) < max_samples"
  show ?case
  proof (cases ?c)
    case False
    have "step1_loop env max_iter max_samples iter_count self = Returned () self"
      by (subst step1_loop.simps) (simp only: False if_False)
    then show ?thesis using "1.prems"(2) by simp
  next
    case True
    show ?thesis
    proof (cases "novelty_scan env self")
      case (Inl e)
      then show ?thesis using True "1.prems"(2) by (subst step1_loop.simps) simp
    next
      case n: (Inr novel_X)
      show ?thesis
      proof (cases "length novel_X > 0")
        case False
        then show ?thesis using True n "1.prems"(2) by (subst step1_loop.simps) simp
      next
        case pos: True
        show ?thesis
        proof (cases "AffinityPropagation_fit env (damping self) (preference self) novel_X")
          case (Inl e)
          then show ?thesis using True n pos "1.prems"(2) by (subst step1_loop.simps) simp
        next
          case ap: (Inr representative_X)
          then have dC: "distinct representative_X"
            using "1.prems"(1) unfolding collaborators_contract_def by blast
          show ?thesis
          proof (cases "representative_indices (unlabelled_X_new self) representative_X")
            case (Inl e)
            then show ?thesis using True n pos ap "1.prems"(2) by (subst step1_loop.simps) simp
          next
            case ri: (Inr indices)
            from representative_indices_Inr [OF ri]
            have r: "\<forall>k\<in>set indices. k < length (unlabelled_X_new self)"
              and m: "map (\<lambda>k. unlabelled_X_new self ! k) indices = representative_X" by auto
            have d: "distinct indices" using dC m by (metis distinct_map)
            note oa = oracle_annotations_inv [OF "1.prems"(2) d r]
            show ?thesis
            proof (cases "oracle_annotations (map int indices) self")
              case (Raised e s1)
              then show ?thesis using True n pos ap ri oa by (subst step1_loop.simps) simp
            next
              case o: (Returned u s1)
              then have i1: "run_inv start s1" using oa by simp
              note tm = train_model_inv [OF i1, of env]
              show ?thesis
              proof (cases "train_model env s1")
                case (Raised e s2)
                then show ?thesis using True n pos ap ri o tm by (subst step1_loop.simps) simp
              next
                case t: (Returned c s2)
                then have i2: "run_inv start s2" using tm by simp
                from "1.IH" [OF True n pos ap ri o t "1.prems"(1) i2] show ?thesis
                  using True n pos ap ri o t by (subst step1_loop.simps) simp
              qed
            qed
          qed
        qed
      qed
    qed
  qed
qed

lemma step1_inv:
  assumes "collaborators_contract env" and "lockstep self"
  shows "run_inv self (state_of (step1 env max_iter max_samples self))"
proof (cases "train_model env self")
  case (Raised e s1)
  then show ?thesis
    using train_model_inv [OF run_inv_refl [OF assms(2)], of env] by (simp add: step1_def)
next
  case (Returned c s1)
  then have "run_inv self s1"
    using train_model_inv [OF run_inv_refl [OF assms(2)], of env] by simp
  then have "run_inv self (s1\<lparr>training_type := ''AP''\<rparr>)" by (rule run_inv_training_type)
  from step1_loop_inv [OF assms(1) this] show ?thesis using Returned by (simp add: step1_def)
qed

lemma example_env_contract: "collaborators_contract example_env"
  by (simp add: collaborators_contract_def example_env_def)

text \<open>
  Claim C1.  In a pool whose arrays are in lockstep, annotating a batch of unique indices
  that are positions of the unlabelled arrays succeeds and leaves the size of the labelled
  set plus the size of the unlabelled set unchanged, for the feature matrices and for the
  label vectors, so the sum stays the size of the original dataset; evaluation
  (\<open>run_classification\<close>) and retraining (\<open>train_model\<close>) leave the sum unchanged as
  well, and so do whole runs of \<open>step1\<close> and \<open>step2\<close>, whether they return or raise,
  with collaborators that keep their contract (under it every batch the loop annotates is
  unique and in range).
\<close>

theorem pool_total_preserved:
  assumes "lockstep self" and "distinct indices"
    and "\<forall>i\<in>set indices. in_range (length (unlabelled_X_new self)) i"
  shows "(\<exists>self'. oracle_annotations indices self = Returned () self' \<and>
           lockstep self' \<and>
           length (labelled_X_new self') + length (unlabelled_X_new self') = pool_total self \<and>
           length (labelled_y_new self') + length (unlabelled_y_new self') = pool_total self) \<and>
         (\<forall>env c r self'. run_classification env c self = Returned r self' \<longrightarrow>
            pool_total self' = pool_total self) \<and>
         (\<forall>env c self'. train_model env self = Returned c self' \<longrightarrow>
            pool_total self' = pool_total self) \<and>
         (\<forall>env max_iter max_samples. collaborators_contract env \<longrightarrow>
            pool_total (state_of (step1 env max_iter max_samples self)) = pool_total self) \<and>
         (\<forall>env max_iter n max_samples sampling_type. collaborators_contract env \<longrightarrow>
            pool_total (state_of (step2 env max_iter n max_samples sampling_type self)) =
              pool_total self)"
proof -
  let ?n = "length (unlabelled_X_new self)"
  let ?js = "map nat indices"
  have norm: "normalize_indices ?n indices = Inr ?js"
    using assms(3) by (rule normalize_indices_in_range)
  have "inj_on nat (set indices)"
  proof (rule inj_onI)
    fix x y assume "x \<in> set indices" "y \<in> set indices" "nat x = nat y"
    then show "x = y" using assms(3) by (simp add: in_range_def eq_nat_nat_iff)
  qed
  then have d: "distinct ?js" using assms(2) by (simp add: distinct_map)
  have r: "\<forall>j\<in>set ?js. j < ?n" using assms(3) by (auto simp: in_range_def)
  have keep: "length (filter (\<lambda>k. k \<notin> set ?js) [0..<?n]) + length ?js = ?n"
    using d r by (rule length_keep)
  have ny: "length (unlabelled_y_new self) = ?n" using assms(1) by (simp add: lockstep_def)
  have annotate: "\<exists>self'. oracle_annotations indices self = Returned () self' \<and>
           lockstep self' \<and>
           length (labelled_X_new self') + length (unlabelled_X_new self') = pool_total self \<and>
           length (labelled_y_new self') + length (unlabelled_y_new self') = pool_total self"
    using oracle_annotations_Returned [OF assms(1) norm] keep assms(1) ny
    by (simp add: lockstep_def pool_total_def)
  have evaluate: "pool_total self' = pool_total self"
    if "run_classification env c self = Returned r self'" for env c r self'
    using run_classification_pool [OF disjI1, OF that] by (simp add: pool_total_def)
  have train: "pool_total self' = pool_total self"
    if "train_model env self = Returned c self'" for env c self'
    using train_model_pool [OF disjI1, OF that] by (simp add: pool_total_def)
  have phase1: "pool_total (state_of (step1 env max_iter max_samples self)) = pool_total self"
    if "collaborators_contract env" for env max_iter max_samples
    using step1_inv [OF that assms(1)] by (simp add: run_inv_def)
  have phase2: "pool_total (state_of (step2 env max_iter n max_samples sampling_type self)) =
      pool_total self"
    if "collaborators_contract env" for env max_iter n max_samples sampling_type
    using step2_inv [OF that assms(1)] by (simp add: run_inv_def)
  show ?thesis using annotate evaluate train phase1 phase2 by blast
qed

theorem pool_total_preserved_witness:
  "lockstep example_pool \<and> distinct [2, 0 :: int] \<and>
   in_range (length (unlabelled_X_new example_pool)) 2 \<and>
   in_range (length (unlabelled_X_new example_pool)) 0 \<and>
   pool_total example_pool = 4 \<and>
   (\<exists>self'. oracle_annotations [2, 0] example_pool = Returned () self' \<and>
      lockstep self' \<and>
      length (labelled_X_new self') + length (unlabelled_X_new self') = 4 \<and>
      length (labelled_y_new self') + length (unlabelled_y_new self') = 4) \<and>
   collaborators_contract example_env \<and>
   pool_total (state_of (step1 example_env 1 800 example_pool)) = 4 \<and>
   pool_total (state_of (step2 example_env 0 1 1000 ''BvSB'' example_pool)) = 4"
proof -
  have h1: "lockstep example_pool" by (simp add: lockstep_def example_pool_def)
  have h2: "distinct [2, 0 :: int]" by simp
  have h3: "\<forall>i\<in>set [2, 0 :: int]. in_range (length (unlabelled_X_new example_pool)) i"
    by (simp add: in_range_def example_pool_def)
  have t: "pool_total example_pool = 4" by (simp add: pool_total_def example_pool_def)
  show ?thesis
    using pool_total_preserved [OF h1 h2 h3] h1 h2 h3 t example_env_contract by simp
qed

end
